theory Spec2Isabelle
  imports Main "HOL-Library.Word" "HOL-Library.Multiset"
begin

section \<open>Wallet transaction records (src/qt/transactionrecord.cpp)\<close>

subsection \<open>Data\<close>

type_synonym uint256 = "256 word"
type_synonym CAmount = "64 word"

text \<open>The record types that \<open>decomposeTransaction\<close> assigns and the status values that
  \<open>updateStatus\<close> assigns. \<open>Other\<close> stands for every enumerator the two functions never
  assign.\<close>

datatype RecordType =
    Other
  | Generated
  | SendToAddress
  | SendToAddressWithMemo
  | SendToSelf
  | SendToSelfWithMemo
  | RecvWithAddress
  | RecvWithAddressWithMemo

datatype StatusCode =
    Confirmed
  | OpenUntilDate
  | OpenUntilBlock
  | Offline
  | Unconfirmed
  | Confirming
  | Conflicted
  | Immature
  | MaturesWarning
  | NotAccepted

record TransactionStatus =
  countsForBalance :: bool
  sortKey :: string
  matures_in :: int
  status_code :: StatusCode
  depth :: int
  open_for :: int
  cur_num_blocks :: int
  needsUpdate :: bool

record TransactionRecord =
  archiveType :: int
  hash :: uint256
  time :: int
  spentFrom :: string
  address :: string
  debit :: CAmount
  credit :: CAmount
  idx :: int
  memo :: string
  type :: RecordType
  status :: TransactionStatus

text \<open>The archived transaction \<open>RpcArcTransaction\<close> as \<open>decomposeTransaction\<close> reads it:
  transparent outputs carry \<open>vout\<close>, Sprout outputs \<open>jsOutIndex\<close>, Sapling outputs
  \<open>shieldedOutputIndex\<close> and a memo. \<open>arc_spentFrom\<close> is the \<open>std::set\<close> of spending
  addresses.\<close>

record TOutput =
  t_encodedAddress :: string
  t_amount :: CAmount
  t_vout :: int

record ZcOutput =
  zc_encodedAddress :: string
  zc_amount :: CAmount
  zc_jsOutIndex :: int

record ZsOutput =
  zs_encodedAddress :: string
  zs_amount :: CAmount
  zs_shieldedOutputIndex :: int
  zs_memoStr :: string

record RpcArcTransaction =
  arc_archiveType :: int
  arc_txid :: uint256
  arc_nTime :: int
  arc_coinbase :: bool
  arc_spentFrom :: "string set"
  arc_vTSend :: "TOutput list"
  arc_vZcReceived :: "ZcOutput list"
  arc_vZsSend :: "ZsOutput list"
  arc_vTReceived :: "TOutput list"
  arc_vZsReceived :: "ZsOutput list"
  arc_sproutValue :: CAmount
  arc_sproutValueSpent :: CAmount

subsection \<open>decomposeTransaction\<close>

text \<open>The locals of \<open>decomposeTransaction\<close> that its loops update.\<close>

record Decomp =
  parts :: "TransactionRecord list"
  partsChange :: "TransactionRecord list"
  spendingAddress :: string
  sproutValueReceived :: CAmount

definition isChange :: "RpcArcTransaction \<Rightarrow> string \<Rightarrow> bool" where
  "isChange arcTx addr \<longleftrightarrow> arc_spentFrom arcTx \<noteq> {} \<and> addr \<in> arc_spentFrom arcTx"

text \<open>\<open>auto tx = TransactionRecord()\<close> followed by the three assignments every branch
  starts with. The default-constructed record is the parameter \<open>blank\<close>: the constructor
  lives in the header.\<close>

definition newRecord :: "TransactionRecord \<Rightarrow> RpcArcTransaction \<Rightarrow> TransactionRecord" where
  "newRecord blank arcTx =
     blank\<lparr>archiveType := arc_archiveType arcTx, hash := arc_txid arcTx, time := arc_nTime arcTx\<rparr>"

definition appendPart :: "TransactionRecord \<Rightarrow> Decomp \<Rightarrow> Decomp" where
  "appendPart tx d = d\<lparr>parts := parts d @ [tx]\<rparr>"

definition appendChange :: "TransactionRecord \<Rightarrow> Decomp \<Rightarrow> Decomp" where
  "appendChange tx d = d\<lparr>partsChange := partsChange d @ [tx]\<rparr>"

text \<open>Loop over \<open>vTSend\<close> (lines 42 to 61): each iteration also overwrites
  \<open>spendingAddress\<close>.\<close>

definition stepTSend :: "TransactionRecord \<Rightarrow> RpcArcTransaction \<Rightarrow> Decomp \<Rightarrow> TOutput \<Rightarrow> Decomp" where
  "stepTSend blank arcTx d out =
     (let tx = (newRecord blank arcTx)
                \<lparr>spentFrom := t_encodedAddress out, address := t_encodedAddress out,
                 debit := t_amount out, idx := t_vout out\<rparr>;
          d1 = d\<lparr>spendingAddress := t_encodedAddress out\<rparr>
      in if isChange arcTx (t_encodedAddress out)
         then appendChange (tx\<lparr>type := SendToSelf\<rparr>) d1
         else appendPart (tx\<lparr>type := SendToAddress\<rparr>) d1)"

text \<open>Loop over \<open>vZcReceived\<close> inside the spending branch (lines 65 to 84): the amounts
  are summed into \<open>sproutValueReceived\<close> and booked as negative credit.\<close>

definition stepZcSend :: "TransactionRecord \<Rightarrow> RpcArcTransaction \<Rightarrow> Decomp \<Rightarrow> ZcOutput \<Rightarrow> Decomp" where
  "stepZcSend blank arcTx d out =
     (let d1 = d\<lparr>sproutValueReceived := sproutValueReceived d + zc_amount out\<rparr>;
          tx = (newRecord blank arcTx)
                \<lparr>spentFrom := spendingAddress d1, address := zc_encodedAddress out,
                 credit := - zc_amount out, idx := zc_jsOutIndex out\<rparr>
      in if isChange arcTx (zc_encodedAddress out)
         then appendChange (tx\<lparr>type := SendToSelf\<rparr>) d1
         else appendPart (tx\<lparr>type := SendToAddress\<rparr>) d1)"

text \<open>The Sprout remainder (lines 86 to 96).\<close>

definition sproutRemainder :: "TransactionRecord \<Rightarrow> RpcArcTransaction \<Rightarrow> Decomp \<Rightarrow> Decomp" where
  "sproutRemainder blank arcTx d =
     (if arc_sproutValue arcTx - arc_sproutValueSpent arcTx - sproutValueReceived d \<noteq> 0
      then appendPart ((newRecord blank arcTx)
                \<lparr>spentFrom := spendingAddress d, address := ''Private Sprout Address'',
                 credit := - arc_sproutValue arcTx - arc_sproutValueSpent arcTx,
                 type := SendToAddress\<rparr>) d
      else d)"

text \<open>Loop over \<open>vZsSend\<close> (lines 98 to 127).\<close>

definition stepZsSend :: "TransactionRecord \<Rightarrow> RpcArcTransaction \<Rightarrow> Decomp \<Rightarrow> ZsOutput \<Rightarrow> Decomp" where
  "stepZsSend blank arcTx d out =
     (let tx0 = (newRecord blank arcTx)
                \<lparr>spentFrom := spendingAddress d, address := zs_encodedAddress out,
                 credit := - zs_amount out, idx := zs_shieldedOutputIndex out\<rparr>;
          tx = (if length (zs_memoStr out) \<noteq> 0 then tx0\<lparr>memo := zs_memoStr out\<rparr> else tx0)
      in if isChange arcTx (zs_encodedAddress out)
         then appendChange
                (tx\<lparr>type := (if length (zs_memoStr out) = 0 then SendToSelf else SendToSelfWithMemo)\<rparr>) d
         else appendPart
                (tx\<lparr>type := (if length (zs_memoStr out) = 0 then SendToAddress
                              else SendToAddressWithMemo)\<rparr>) d)"

text \<open>Loop over \<open>vTReceived\<close> (lines 131 to 153).\<close>

definition stepTReceived :: "TransactionRecord \<Rightarrow> RpcArcTransaction \<Rightarrow> Decomp \<Rightarrow> TOutput \<Rightarrow> Decomp" where
  "stepTReceived blank arcTx d out =
     (let tx = (newRecord blank arcTx)
                \<lparr>spentFrom := spendingAddress d, address := t_encodedAddress out,
                 debit := t_amount out, idx := t_vout out\<rparr>
      in if isChange arcTx (t_encodedAddress out)
         then appendChange (tx\<lparr>type := SendToSelf\<rparr>) d
         else appendPart (tx\<lparr>type := (if arc_coinbase arcTx then Generated else RecvWithAddress)\<rparr>) d)"

text \<open>Second loop over \<open>vZcReceived\<close> (lines 156 to 174), now booked as debit.\<close>

definition stepZcReceived :: "TransactionRecord \<Rightarrow> RpcArcTransaction \<Rightarrow> Decomp \<Rightarrow> ZcOutput \<Rightarrow> Decomp" where
  "stepZcReceived blank arcTx d out =
     (let tx = (newRecord blank arcTx)
                \<lparr>spentFrom := spendingAddress d, address := zc_encodedAddress out,
                 debit := zc_amount out, idx := zc_jsOutIndex out\<rparr>
      in if isChange arcTx (zc_encodedAddress out)
         then appendChange (tx\<lparr>type := SendToSelf\<rparr>) d
         else appendPart (tx\<lparr>type := RecvWithAddress\<rparr>) d)"

text \<open>Loop over \<open>vZsReceived\<close> (lines 176 to 206).\<close>

definition stepZsReceived :: "TransactionRecord \<Rightarrow> RpcArcTransaction \<Rightarrow> Decomp \<Rightarrow> ZsOutput \<Rightarrow> Decomp" where
  "stepZsReceived blank arcTx d out =
     (let tx0 = (newRecord blank arcTx)
                \<lparr>spentFrom := spendingAddress d, address := zs_encodedAddress out,
                 debit := zs_amount out, idx := zs_shieldedOutputIndex out\<rparr>;
          tx = (if length (zs_memoStr out) \<noteq> 0 then tx0\<lparr>memo := zs_memoStr out\<rparr> else tx0)
      in if isChange arcTx (zs_encodedAddress out)
         then appendChange
                (tx\<lparr>type := (if length (zs_memoStr out) = 0 then SendToSelf else SendToSelfWithMemo)\<rparr>) d
         else appendPart
                (tx\<lparr>type := (if length (zs_memoStr out) = 0 then RecvWithAddress
                              else RecvWithAddressWithMemo)\<rparr>) d)"

text \<open>A \<open>for (int i = 0; i < v.size(); i++)\<close> loop whose body reads only \<open>v[i]\<close>: the
  body applied to the elements from left to right.\<close>

fun forEach :: "('s \<Rightarrow> 'a \<Rightarrow> 's) \<Rightarrow> 'a list \<Rightarrow> 's \<Rightarrow> 's" where
  "forEach body [] s = s"
| "forEach body (x # xs) s = forEach body xs (body s x)"

definition spendingBranch :: "TransactionRecord \<Rightarrow> RpcArcTransaction \<Rightarrow> Decomp \<Rightarrow> Decomp" where
  "spendingBranch blank arcTx d0 =
     (let d1 = forEach (stepTSend blank arcTx) (arc_vTSend arcTx) d0;
          d2 = forEach (stepZcSend blank arcTx) (arc_vZcReceived arcTx)
                 (d1\<lparr>sproutValueReceived := 0\<rparr>);
          d3 = sproutRemainder blank arcTx d2
      in forEach (stepZsSend blank arcTx) (arc_vZsSend arcTx) d3)"

definition decomposeTransaction :: "TransactionRecord \<Rightarrow> RpcArcTransaction \<Rightarrow> TransactionRecord list" where
  "decomposeTransaction blank arcTx =
     (let d0 = \<lparr>parts = [], partsChange = [], spendingAddress = [], sproutValueReceived = 0\<rparr>;
          d1 = (if arc_spentFrom arcTx \<noteq> {} then spendingBranch blank arcTx d0 else d0);
          d2 = forEach (stepTReceived blank arcTx) (arc_vTReceived arcTx) d1;
          d3 = forEach (stepZcReceived blank arcTx) (arc_vZcReceived arcTx) d2;
          d4 = forEach (stepZsReceived blank arcTx) (arc_vZsReceived arcTx) d3
      in if length (parts d4) = 0 then parts d4 @ partsChange d4 else parts d4)"

subsection \<open>Change records\<close>

text \<open>A change record is one of type \<open>SendToSelf\<close> or \<open>SendToSelfWithMemo\<close>. The
  loops keep the two lists apart: \<open>parts\<close> never holds a change record, \<open>partsChange\<close>
  holds nothing else.\<close>

definition isChangeType :: "RecordType \<Rightarrow> bool" where
  "isChangeType t \<longleftrightarrow> t = SendToSelf \<or> t = SendToSelfWithMemo"

definition partsOK :: "Decomp \<Rightarrow> bool" where
  "partsOK d \<longleftrightarrow> list_all (\<lambda>r. \<not> isChangeType (type r)) (parts d)
     \<and> list_all (\<lambda>r. isChangeType (type r)) (partsChange d)"

text \<open>The locals of \<open>decomposeTransaction\<close> when its last loop has ended.\<close>

definition finalLocals :: "TransactionRecord \<Rightarrow> RpcArcTransaction \<Rightarrow> Decomp" where
  "finalLocals blank arcTx =
     (let d0 = \<lparr>parts = [], partsChange = [], spendingAddress = [], sproutValueReceived = 0\<rparr>;
          d1 = (if arc_spentFrom arcTx \<noteq> {} then spendingBranch blank arcTx d0 else d0);
          d2 = forEach (stepTReceived blank arcTx) (arc_vTReceived arcTx) d1;
          d3 = forEach (stepZcReceived blank arcTx) (arc_vZcReceived arcTx) d2
      in forEach (stepZsReceived blank arcTx) (arc_vZsReceived arcTx) d3)"

subsection \<open>updateStatus\<close>

text \<open>What \<open>updateStatus\<close> reads of the wallet transaction: its fields and the results
  of the \<open>const\<close> member functions it calls, and \<open>CheckFinalTx(wtx)\<close>.\<close>

record CWalletTx =
  hashBlock :: uint256
  nTimeReceived :: int
  nLockTime :: int
  IsCoinBase :: bool
  IsTrusted :: bool
  GetBlocksToMaturity :: int
  GetDepthInMainChain :: int
  IsInMainChain :: bool
  GetRequestCount :: int
  CheckFinalTx :: bool

text \<open>The globals \<open>updateStatus\<close> reads: whether \<open>cs_main\<close> is held, \<open>mapBlockIndex\<close>
  (block hash to \<open>pindex->nHeight\<close>), \<open>chainActive.Height()\<close> and \<open>GetTime()\<close>; and what
  the headers declare: the constants \<open>LOCKTIME_THRESHOLD\<close> and
  \<open>RecommendedNumConfirmations\<close> and the formatting done by
  \<open>strprintf("%010d-%01d-%010u-%03d", ...)\<close>.\<close>

record ChainEnv =
  cs_main_held :: bool
  mapBlockIndex :: "uint256 \<rightharpoonup> int"
  chainActive_Height :: int
  GetTime :: int
  LOCKTIME_THRESHOLD :: int
  RecommendedNumConfirmations :: int
  strprintf_sortKey :: "int \<Rightarrow> int \<Rightarrow> int \<Rightarrow> int \<Rightarrow> string"

definition INT_MAX :: int where
  "INT_MAX = 2147483647"

text \<open>The branch for a transaction that is not final (lines 237 to 249). \<open>nLockTime\<close> is
  a \<open>uint32_t\<close>, so the difference to the chain height is taken modulo \<open>2^32\<close>.\<close>

definition statusOpen :: "ChainEnv \<Rightarrow> CWalletTx \<Rightarrow> TransactionStatus \<Rightarrow> TransactionStatus" where
  "statusOpen env wtx st =
     (if nLockTime wtx < LOCKTIME_THRESHOLD env
      then st\<lparr>status_code := OpenUntilBlock,
              open_for := (nLockTime wtx - chainActive_Height env) mod 2 ^ 32\<rparr>
      else st\<lparr>status_code := OpenUntilDate, open_for := nLockTime wtx\<rparr>)"

text \<open>The branch for generated transactions (lines 251 to 274).\<close>

definition statusGenerated :: "ChainEnv \<Rightarrow> CWalletTx \<Rightarrow> TransactionStatus \<Rightarrow> TransactionStatus" where
  "statusGenerated env wtx st =
     (if GetBlocksToMaturity wtx > 0
      then (let st1 = st\<lparr>status_code := Immature\<rparr>
            in if IsInMainChain wtx
               then (let st2 = st1\<lparr>matures_in := GetBlocksToMaturity wtx\<rparr>
                     in if GetTime env - nTimeReceived wtx > 2 * 60 \<and> GetRequestCount wtx = 0
                        then st2\<lparr>status_code := MaturesWarning\<rparr>
                        else st2)
               else st1\<lparr>status_code := NotAccepted\<rparr>)
      else st\<lparr>status_code := Confirmed\<rparr>)"

text \<open>The branch for every other transaction (lines 275 to 299); it reads the depth
  stored a few lines before.\<close>

definition statusOther :: "ChainEnv \<Rightarrow> CWalletTx \<Rightarrow> TransactionStatus \<Rightarrow> TransactionStatus" where
  "statusOther env wtx st =
     (if depth st < 0 then st\<lparr>status_code := Conflicted\<rparr>
      else if GetTime env - nTimeReceived wtx > 2 * 60 \<and> GetRequestCount wtx = 0
      then st\<lparr>status_code := Offline\<rparr>
      else if depth st = 0 then st\<lparr>status_code := Unconfirmed\<rparr>
      else if depth st < RecommendedNumConfirmations env then st\<lparr>status_code := Confirming\<rparr>
      else st\<lparr>status_code := Confirmed\<rparr>)"

text \<open>\<open>TransactionRecord::updateStatus\<close>. \<open>AssertLockHeld(cs_main)\<close> is the only way
  out other than the end of the body: \<open>None\<close> is the failed assertion. The two
  assignments to \<open>countsForBalance\<close> (lines 232 and 233) are kept as two updates, in the
  order of the source.\<close>

definition updateStatus :: "ChainEnv \<Rightarrow> CWalletTx \<Rightarrow> TransactionRecord \<Rightarrow> TransactionRecord option" where
  "updateStatus env wtx rec =
     (if \<not> cs_main_held env then None
      else
        (let pindex = mapBlockIndex env (hashBlock wtx);
             st1 = (status rec)\<lparr>sortKey :=
                      strprintf_sortKey env
                        (case pindex of Some nHeight \<Rightarrow> nHeight | None \<Rightarrow> INT_MAX)
                        (if IsCoinBase wtx then 1 else 0)
                        (nTimeReceived wtx)
                        (idx rec)\<rparr>;
             st2 = st1\<lparr>countsForBalance := IsTrusted wtx \<and> \<not> (GetBlocksToMaturity wtx > 0)\<rparr>;
             st3 = st2\<lparr>countsForBalance := True\<rparr>;
             st4 = st3\<lparr>depth := GetDepthInMainChain wtx\<rparr>;
             st5 = st4\<lparr>cur_num_blocks := chainActive_Height env\<rparr>;
             st6 = (if \<not> CheckFinalTx wtx then statusOpen env wtx st5
                    else if type rec = Generated then statusGenerated env wtx st5
                    else statusOther env wtx st5)
         in Some (rec\<lparr>status := st6\<lparr>needsUpdate := False\<rparr>\<rparr>)))"

section \<open>Spork messages (src/zeronode/spork.h)\<close>

subsection \<open>CSporkMessage and its content hash\<close>

type_synonym byte = "8 word"

record CSporkMessage =
  vchSig :: "byte list"
  nSporkID :: "32 word"
  nValue :: "64 word"
  nTimeSigned :: "64 word"

text \<open>\<open>CHashWriter\<close> is declared outside this file, so the writer is a parameter: its
  state after construction (\<open>CHashWriter ss(SER_GETHASH, PROTOCOL_VERSION)\<close>), what
  \<open>ss << x\<close> does to the state for an \<open>int\<close> and for an \<open>int64_t\<close>, and the digest
  \<open>ss.GetHash()\<close> returns.\<close>

record 's CHashWriter =
  hw_init :: 's
  hw_int :: "'s \<Rightarrow> 32 word \<Rightarrow> 's"
  hw_int64 :: "'s \<Rightarrow> 64 word \<Rightarrow> 's"
  hw_GetHash :: "'s \<Rightarrow> uint256"

text \<open>\<open>CSporkMessage::GetHash\<close> (lines 72 to 79): three writes, then the digest.\<close>

definition GetHash :: "'s CHashWriter \<Rightarrow> CSporkMessage \<Rightarrow> uint256" where
  "GetHash hw m =
     (let ss0 = hw_init hw;
          ss1 = hw_int hw ss0 (nSporkID m);
          ss2 = hw_int64 hw ss1 (nValue m);
          ss3 = hw_int64 hw ss2 (nTimeSigned m)
      in hw_GetHash hw ss3)"

subsection \<open>The registry and ProcessSpork\<close>

text \<open>The two global maps as \<open>spork.h\<close> declares them: \<open>mapSporks\<close> keyed by content hash,
  \<open>mapSporksActive\<close> keyed by spork id.\<close>

record SporkRegistry =
  mapSporks :: "uint256 \<rightharpoonup> CSporkMessage"
  mapSporksActive :: "32 word \<rightharpoonup> CSporkMessage"

definition emptyRegistry :: SporkRegistry where
  "emptyRegistry = \<lparr>mapSporks = Map.empty, mapSporksActive = Map.empty\<rparr>"

datatype ApplyResult = accepted | ignored_stale | ignored_duplicate

datatype SporkEffect =
    Persist CSporkMessage
  | Relay CSporkMessage
  | TriggerHooks CSporkMessage

text \<open>Modelled from the spec: the registry update, whose code is not in \<open>spork.h\<close> (the
  header only declares the maps). Section 4.2, \<open>applyIfNewer\<close>: dedup by hash first
  (\<open>ignored_duplicate\<close> if the hash is already in \<open>seen\<close>); else insert into \<open>seen\<close>; then
  compare \<open>timeSigned\<close> against the active entry of the id (absent counts as minus
  infinity) and overwrite \<open>active\<close> only if strictly newer, returning \<open>accepted\<close> or
  \<open>ignored_stale\<close>. \<open>nTimeSigned\<close> is an \<open>int64_t\<close>, compared as a signed value.\<close>

definition applyIfNewer ::
  "'s CHashWriter \<Rightarrow> SporkRegistry \<Rightarrow> CSporkMessage \<Rightarrow> SporkRegistry \<times> ApplyResult" where
  "applyIfNewer hw reg msg =
     (let h = GetHash hw msg
      in if mapSporks reg h \<noteq> None then (reg, ignored_duplicate)
         else
           (let reg1 = reg\<lparr>mapSporks := (mapSporks reg)(h \<mapsto> msg)\<rparr>;
                newer = (case mapSporksActive reg1 (nSporkID msg) of
                           None \<Rightarrow> True
                         | Some cur \<Rightarrow> sint (nTimeSigned cur) < sint (nTimeSigned msg))
            in if newer
               then (reg1\<lparr>mapSporksActive := (mapSporksActive reg1)(nSporkID msg \<mapsto> msg)\<rparr>,
                     accepted)
               else (reg1, ignored_stale)))"

text \<open>Modelled from the spec: \<open>ProcessSpork\<close>, declared in \<open>spork.h\<close> and defined outside
  it, on a decoded message. Section 4.4: verify via the authority (\<open>CheckSignature\<close>, a
  black box, the parameter of that name); if invalid, drop silently; if valid, call
  \<open>applyIfNewer\<close>; if \<open>accepted\<close>, persist, relay to the other peers and trigger the
  side-effect hooks. The effects are returned as a list, in that order.\<close>

definition ProcessSpork ::
  "(CSporkMessage \<Rightarrow> bool) \<Rightarrow> 's CHashWriter \<Rightarrow> SporkRegistry \<Rightarrow> CSporkMessage
     \<Rightarrow> SporkRegistry \<times> SporkEffect list" where
  "ProcessSpork CheckSignature hw reg msg =
     (if \<not> CheckSignature msg then (reg, [])
      else
        (case applyIfNewer hw reg msg of
           (reg1, accepted) \<Rightarrow> (reg1, [Persist msg, Relay msg, TriggerHooks msg])
         | (reg1, ignored_stale) \<Rightarrow> (reg1, [])
         | (reg1, ignored_duplicate) \<Rightarrow> (reg1, [])))"

text \<open>A node receiving messages one after the other: the registry is threaded through,
  the effects are concatenated.\<close>

fun ProcessSporks ::
  "(CSporkMessage \<Rightarrow> bool) \<Rightarrow> 's CHashWriter \<Rightarrow> SporkRegistry \<Rightarrow> CSporkMessage list
     \<Rightarrow> SporkRegistry \<times> SporkEffect list" where
  "ProcessSporks CheckSignature hw reg [] = (reg, [])"
| "ProcessSporks CheckSignature hw reg (msg # msgs) =
     (let (reg1, out1) = ProcessSpork CheckSignature hw reg msg;
          (reg2, out2) = ProcessSporks CheckSignature hw reg1 msgs
      in (reg2, out1 @ out2))"

text \<open>The messages an effect list relays: exactly those \<open>applyIfNewer\<close> accepted.\<close>

fun relayed :: "SporkEffect list \<Rightarrow> CSporkMessage list" where
  "relayed [] = []"
| "relayed (Relay m # es) = m # relayed es"
| "relayed (Persist m # es) = relayed es"
| "relayed (TriggerHooks m # es) = relayed es"

definition timeSigned :: "CSporkMessage \<Rightarrow> int" where
  "timeSigned m = sint (nTimeSigned m)"

text \<open>The digest tells the messages of a list apart: two of them with the same hash have
  the same hashed content.\<close>

definition collisionFree :: "'s CHashWriter \<Rightarrow> CSporkMessage list \<Rightarrow> bool" where
  "collisionFree hw msgs \<longleftrightarrow>
     (\<forall>a \<in> set msgs. \<forall>b \<in> set msgs. GetHash hw a = GetHash hw b \<longrightarrow>
        nSporkID a = nSporkID b \<and> nValue a = nValue b \<and> nTimeSigned a = nTimeSigned b)"

text \<open>The active time of a spork id, if it has an active entry, and the greatest element
  of a set of times, if it has one.\<close>

definition activeTime :: "SporkRegistry \<Rightarrow> 32 word \<Rightarrow> int option" where
  "activeTime reg i = map_option timeSigned (mapSporksActive reg i)"

definition maxTime :: "int set \<Rightarrow> int option" where
  "maxTime S = (if S = {} then None else Some (Max S))"

text \<open>Every message a registry stores passes the signature check.\<close>

definition verifiedOnly :: "(CSporkMessage \<Rightarrow> bool) \<Rightarrow> SporkRegistry \<Rightarrow> bool" where
  "verifiedOnly V reg \<longleftrightarrow>
     (\<forall>k m. mapSporks reg k = Some m \<longrightarrow> V m) \<and> (\<forall>i m. mapSporksActive reg i = Some m \<longrightarrow> V m)"

section \<open>Concrete inputs\<close>

text \<open>A default-constructed record, a transaction that pays its only output back to the
  address it spends from, an untrusted and immature coinbase transaction, and a chain
  state with \<open>cs_main\<close> held.\<close>

definition blankRecord :: TransactionRecord where
  "blankRecord =
     \<lparr>archiveType = 0, hash = 0, time = 0, spentFrom = [], address = [], debit = 0, credit = 0,
      idx = 0, memo = [], type = Other,
      status = \<lparr>countsForBalance = False, sortKey = [], matures_in = 0, status_code = Offline,
                 depth = 0, open_for = 0, cur_num_blocks = - 1, needsUpdate = False\<rparr>\<rparr>"

definition selfSendTx :: RpcArcTransaction where
  "selfSendTx =
     \<lparr>arc_archiveType = 0, arc_txid = 7, arc_nTime = 1500000000, arc_coinbase = False,
      arc_spentFrom = {''t1abc''},
      arc_vTSend = [\<lparr>t_encodedAddress = ''t1abc'', t_amount = 5, t_vout = 0\<rparr>],
      arc_vZcReceived = [], arc_vZsSend = [], arc_vTReceived = [], arc_vZsReceived = [],
      arc_sproutValue = 0, arc_sproutValueSpent = 0\<rparr>"

definition immatureTx :: CWalletTx where
  "immatureTx =
     \<lparr>hashBlock = 9, nTimeReceived = 1500000000, nLockTime = 0, IsCoinBase = True,
      IsTrusted = False, GetBlocksToMaturity = 50, GetDepthInMainChain = 51,
      IsInMainChain = True, GetRequestCount = 1, CheckFinalTx = True\<rparr>"

definition lockedEnv :: ChainEnv where
  "lockedEnv =
     \<lparr>cs_main_held = True, mapBlockIndex = [9 \<mapsto> 1000], chainActive_Height = 1050,
      GetTime = 1500000060, LOCKTIME_THRESHOLD = 500000000, RecommendedNumConfirmations = 6,
      strprintf_sortKey = (\<lambda>h c t i. ''key'')\<rparr>"

text \<open>A signature check that accepts one fixed signature. A writer that collects bytes,
  integers in fixed width with the least significant byte first, and whose digest reads
  the bytes as one number. Spork 10001 signed at time \<open>t\<close>, and a message with an empty
  signature.\<close>

definition demoCheckSignature :: "CSporkMessage \<Rightarrow> bool" where
  "demoCheckSignature m \<longleftrightarrow> vchSig m = [48, 68]"

definition le_bytes :: "nat \<Rightarrow> 'a::len word \<Rightarrow> byte list" where
  "le_bytes n w = map (\<lambda>i. ucast (drop_bit (8 * i) w)) [0..<n]"

definition demoWriter :: "byte list CHashWriter" where
  "demoWriter =
     \<lparr>hw_init = [],
      hw_int = (\<lambda>ss x. ss @ le_bytes 4 x),
      hw_int64 = (\<lambda>ss x. ss @ le_bytes 8 x),
      hw_GetHash = (\<lambda>ss. word_of_nat (foldr (\<lambda>b n. unat b + 256 * n) ss 0))\<rparr>"

definition sporkAt :: "64 word \<Rightarrow> CSporkMessage" where
  "sporkAt t = \<lparr>vchSig = [48, 68], nSporkID = 10001, nValue = 4070908800, nTimeSigned = t\<rparr>"

definition forgedSpork :: CSporkMessage where
  "forgedSpork = \<lparr>vchSig = [], nSporkID = 10001, nValue = 0, nTimeSigned = 500\<rparr>"

definition demoMsgs :: "CSporkMessage list" where
  "demoMsgs = [sporkAt 200, sporkAt 100, sporkAt 300]"

definition regWith200 :: SporkRegistry where
  "regWith200 = \<lparr>mapSporks = [GetHash demoWriter (sporkAt 200) \<mapsto> sporkAt 200],
                  mapSporksActive = [10001 \<mapsto> sporkAt 200]\<rparr>"

section \<open>Properties of the transaction records\<close>

lemma forEach_preserves:
  assumes "\<And>s x. P s \<Longrightarrow> P (body s x)" and "P s"
  shows "P (forEach body xs s)"
  using assms(2) by (induction xs arbitrary: s) (auto intro: assms(1))

lemma partsOK_stepTSend: "partsOK d \<Longrightarrow> partsOK (stepTSend blank arcTx d out)"
  by (simp add: partsOK_def stepTSend_def appendPart_def appendChange_def isChangeType_def Let_def)

lemma partsOK_stepZcSend: "partsOK d \<Longrightarrow> partsOK (stepZcSend blank arcTx d out)"
  by (simp add: partsOK_def stepZcSend_def appendPart_def appendChange_def isChangeType_def Let_def)

lemma partsOK_sproutRemainder: "partsOK d \<Longrightarrow> partsOK (sproutRemainder blank arcTx d)"
  by (simp add: partsOK_def sproutRemainder_def appendPart_def isChangeType_def)

lemma partsOK_stepZsSend: "partsOK d \<Longrightarrow> partsOK (stepZsSend blank arcTx d out)"
  by (simp add: partsOK_def stepZsSend_def appendPart_def appendChange_def isChangeType_def Let_def)

lemma partsOK_stepTReceived: "partsOK d \<Longrightarrow> partsOK (stepTReceived blank arcTx d out)"
  by (simp add: partsOK_def stepTReceived_def appendPart_def appendChange_def isChangeType_def Let_def)

lemma partsOK_stepZcReceived: "partsOK d \<Longrightarrow> partsOK (stepZcReceived blank arcTx d out)"
  by (simp add: partsOK_def stepZcReceived_def appendPart_def appendChange_def isChangeType_def Let_def)

lemma partsOK_stepZsReceived: "partsOK d \<Longrightarrow> partsOK (stepZsReceived blank arcTx d out)"
  by (simp add: partsOK_def stepZsReceived_def appendPart_def appendChange_def isChangeType_def Let_def)

lemma partsOK_reset: "partsOK d \<Longrightarrow> partsOK (d\<lparr>sproutValueReceived := v\<rparr>)"
  by (simp add: partsOK_def)

lemma partsOK_spendingBranch: "partsOK d \<Longrightarrow> partsOK (spendingBranch blank arcTx d)"
proof -
  assume d: "partsOK d"
  have 1: "partsOK (forEach (stepTSend blank arcTx) (arc_vTSend arcTx) d)"
    by (rule forEach_preserves [where P = partsOK]) (simp_all add: partsOK_stepTSend d)
  have 2: "partsOK (forEach (stepZcSend blank arcTx) (arc_vZcReceived arcTx)
             ((forEach (stepTSend blank arcTx) (arc_vTSend arcTx) d)\<lparr>sproutValueReceived := 0\<rparr>))"
    by (rule forEach_preserves [where P = partsOK]) (simp_all add: partsOK_stepZcSend partsOK_reset [OF 1])
  show ?thesis
    unfolding spendingBranch_def Let_def
    by (rule forEach_preserves [where P = partsOK])
       (simp_all add: partsOK_stepZsSend partsOK_sproutRemainder [OF 2])
qed

lemma partsOK_finalLocals: "partsOK (finalLocals blank arcTx)"
proof -
  have "partsOK \<lparr>parts = [], partsChange = [], spendingAddress = [], sproutValueReceived = 0\<rparr>"
    by (simp add: partsOK_def)
  then have 1: "partsOK (if arc_spentFrom arcTx \<noteq> {}
      then spendingBranch blank arcTx
             \<lparr>parts = [], partsChange = [], spendingAddress = [], sproutValueReceived = 0\<rparr>
      else \<lparr>parts = [], partsChange = [], spendingAddress = [], sproutValueReceived = 0\<rparr>)"
    by (simp add: partsOK_spendingBranch)
  have 2: "partsOK (forEach (stepTReceived blank arcTx) (arc_vTReceived arcTx) d)"
    if "partsOK d" for d
    by (rule forEach_preserves [where P = partsOK]) (simp_all add: partsOK_stepTReceived that)
  have 3: "partsOK (forEach (stepZcReceived blank arcTx) (arc_vZcReceived arcTx) d)"
    if "partsOK d" for d
    by (rule forEach_preserves [where P = partsOK]) (simp_all add: partsOK_stepZcReceived that)
  have 4: "partsOK (forEach (stepZsReceived blank arcTx) (arc_vZsReceived arcTx) d)"
    if "partsOK d" for d
    by (rule forEach_preserves [where P = partsOK]) (simp_all add: partsOK_stepZsReceived that)
  show ?thesis
    unfolding finalLocals_def Let_def by (rule 4, rule 3, rule 2, rule 1)
qed

lemma decomposeTransaction_finalLocals:
  "decomposeTransaction blank arcTx =
     (let d = finalLocals blank arcTx
      in if length (parts d) = 0 then parts d @ partsChange d else parts d)"
  by (simp add: decomposeTransaction_def finalLocals_def Let_def)

text \<open>C10: for every input transaction, the list that \<open>decomposeTransaction\<close> returns
  contains a change record (type \<open>SendToSelf\<close> or \<open>SendToSelfWithMemo\<close>) only if it
  contains no record of any other type: if one record of the result is a change record,
  all of them are.\<close>

theorem decomposeTransaction_change_only_alone:
  "(\<exists>r \<in> set (decomposeTransaction blank arcTx). isChangeType (type r))
     \<longrightarrow> (\<forall>r \<in> set (decomposeTransaction blank arcTx). isChangeType (type r))"
proof -
  let ?d = "finalLocals blank arcTx"
  have ok: "partsOK ?d" by (rule partsOK_finalLocals)
  show ?thesis
  proof (cases "parts ?d = []")
    case True
    then have "decomposeTransaction blank arcTx = partsChange ?d"
      by (simp add: decomposeTransaction_finalLocals Let_def)
    with ok show ?thesis by (simp add: partsOK_def list_all_iff)
  next
    case False
    then have "decomposeTransaction blank arcTx = parts ?d"
      by (simp add: decomposeTransaction_finalLocals Let_def)
    with ok show ?thesis by (simp add: partsOK_def list_all_iff)
  qed
qed

theorem decomposeTransaction_change_only_alone_witness:
  "(\<exists>r \<in> set (decomposeTransaction blankRecord selfSendTx). isChangeType (type r))
   \<and> list_all (\<lambda>r. isChangeType (type r)) (decomposeTransaction blankRecord selfSendTx)
   \<and> map type (decomposeTransaction blankRecord selfSendTx) = [SendToSelf]"
proof -
  have types: "map type (decomposeTransaction blankRecord selfSendTx) = [SendToSelf]"
    by (simp add: decomposeTransaction_def spendingBranch_def stepTSend_def sproutRemainder_def
          newRecord_def appendChange_def appendPart_def isChange_def selfSendTx_def Let_def)
  have "isChangeType SendToSelf" by (simp add: isChangeType_def)
  with types have "\<exists>t \<in> set (map type (decomposeTransaction blankRecord selfSendTx)). isChangeType t"
    by simp
  then have ex: "\<exists>r \<in> set (decomposeTransaction blankRecord selfSendTx). isChangeType (type r)"
    by auto
  with decomposeTransaction_change_only_alone [of blankRecord selfSendTx]
  have "\<forall>r \<in> set (decomposeTransaction blankRecord selfSendTx). isChangeType (type r)"
    by blast
  with ex types show ?thesis by (simp add: list_all_iff)
qed

lemma countsForBalance_statusOpen:
  "countsForBalance (statusOpen env wtx st) = countsForBalance st"
  by (simp add: statusOpen_def)

lemma countsForBalance_statusGenerated:
  "countsForBalance (statusGenerated env wtx st) = countsForBalance st"
  by (simp add: statusGenerated_def Let_def)

lemma countsForBalance_statusOther:
  "countsForBalance (statusOther env wtx st) = countsForBalance st"
  by (simp add: statusOther_def)

text \<open>C9: for every wallet transaction, record and chain state, whenever \<open>updateStatus\<close>
  returns, \<open>status.countsForBalance\<close> is true, whatever \<open>IsTrusted()\<close> and the blocks to
  maturity are; and it does return whenever \<open>cs_main\<close> is held.\<close>

theorem updateStatus_countsForBalance:
  "(cs_main_held env \<longrightarrow> (\<exists>r. updateStatus env wtx rec = Some r))
   \<and> (\<forall>r. updateStatus env wtx rec = Some r \<longrightarrow> countsForBalance (status r))"
proof (cases "cs_main_held env")
  case False
  then show ?thesis by (simp add: updateStatus_def)
next
  case True
  then show ?thesis
    by (simp add: updateStatus_def Let_def countsForBalance_statusOpen
          countsForBalance_statusGenerated countsForBalance_statusOther)
qed

theorem updateStatus_countsForBalance_witness:
  "cs_main_held lockedEnv \<and> \<not> IsTrusted immatureTx \<and> 0 < GetBlocksToMaturity immatureTx
   \<and> (\<exists>r. updateStatus lockedEnv immatureTx (blankRecord\<lparr>type := Generated\<rparr>) = Some r
          \<and> countsForBalance (status r) \<and> status_code (status r) = Immature)"
proof -
  have held: "cs_main_held lockedEnv" by (simp add: lockedEnv_def)
  from updateStatus_countsForBalance [of lockedEnv immatureTx "blankRecord\<lparr>type := Generated\<rparr>"] held
  obtain r where r: "updateStatus lockedEnv immatureTx (blankRecord\<lparr>type := Generated\<rparr>) = Some r"
    and c: "countsForBalance (status r)" by blast
  from r have "status_code (status r) = Immature"
    by (auto simp add: updateStatus_def Let_def lockedEnv_def immatureTx_def blankRecord_def
          statusGenerated_def)
  with held r c show ?thesis by (simp add: immatureTx_def)
qed

section \<open>Properties of the spork messages\<close>

text \<open>C4: \<open>CSporkMessage::GetHash\<close> is the digest of a writer that was given \<open>nSporkID\<close>,
  \<open>nValue\<close> and \<open>nTimeSigned\<close>, in that order, and nothing else: replacing the signature
  leaves the hash as it is, and two messages that agree on the three fields have the same
  hash, whatever the writer does with what it is given.\<close>

theorem GetHash_content_only:
  "GetHash hw m =
     hw_GetHash hw
       (hw_int64 hw (hw_int64 hw (hw_int hw (hw_init hw) (nSporkID m)) (nValue m)) (nTimeSigned m))
   \<and> GetHash hw (m\<lparr>vchSig := sig\<rparr>) = GetHash hw m
   \<and> (nSporkID a = nSporkID b \<and> nValue a = nValue b \<and> nTimeSigned a = nTimeSigned b
        \<longrightarrow> GetHash hw a = GetHash hw b)"
  by (simp add: GetHash_def Let_def)

theorem GetHash_content_only_witness:
  "vchSig (sporkAt 100) \<noteq> vchSig ((sporkAt 100)\<lparr>vchSig := [1, 2, 3]\<rparr>)
   \<and> GetHash demoWriter (sporkAt 100) = GetHash demoWriter ((sporkAt 100)\<lparr>vchSig := [1, 2, 3]\<rparr>)"
proof -
  have "nSporkID (sporkAt 100) = nSporkID ((sporkAt 100)\<lparr>vchSig := [1, 2, 3]\<rparr>)
      \<and> nValue (sporkAt 100) = nValue ((sporkAt 100)\<lparr>vchSig := [1, 2, 3]\<rparr>)
      \<and> nTimeSigned (sporkAt 100) = nTimeSigned ((sporkAt 100)\<lparr>vchSig := [1, 2, 3]\<rparr>)"
    by simp
  with GetHash_content_only [of demoWriter "sporkAt 100" "[]" "sporkAt 100"
         "(sporkAt 100)\<lparr>vchSig := [1, 2, 3]\<rparr>"]
  have "GetHash demoWriter (sporkAt 100) = GetHash demoWriter ((sporkAt 100)\<lparr>vchSig := [1, 2, 3]\<rparr>)"
    by blast
  then show ?thesis by (simp add: sporkAt_def)
qed

lemma ProcessSpork_cases [case_names invalid duplicate stale newer]:
  fixes V H reg msg
  defines "h \<equiv> GetHash H msg"
  obtains
    "\<not> V msg" "ProcessSpork V H reg msg = (reg, [])"
  | "V msg" "mapSporks reg h \<noteq> None" "ProcessSpork V H reg msg = (reg, [])"
  | cur where "V msg" "mapSporks reg h = None" "mapSporksActive reg (nSporkID msg) = Some cur"
      "\<not> sint (nTimeSigned cur) < sint (nTimeSigned msg)"
      "ProcessSpork V H reg msg = (reg\<lparr>mapSporks := (mapSporks reg)(h \<mapsto> msg)\<rparr>, [])"
  | "V msg" "mapSporks reg h = None"
      "\<forall>cur. mapSporksActive reg (nSporkID msg) = Some cur
          \<longrightarrow> sint (nTimeSigned cur) < sint (nTimeSigned msg)"
      "ProcessSpork V H reg msg =
         (reg\<lparr>mapSporks := (mapSporks reg)(h \<mapsto> msg),
              mapSporksActive := (mapSporksActive reg)(nSporkID msg \<mapsto> msg)\<rparr>,
          [Persist msg, Relay msg, TriggerHooks msg])"
proof (cases "V msg")
  case False
  then show ?thesis using that(1) by (simp add: ProcessSpork_def)
next
  case v: True
  show ?thesis
  proof (cases "mapSporks reg h")
    case (Some x)
    then show ?thesis using that(2) v
      by (simp add: ProcessSpork_def applyIfNewer_def h_def)
  next
    case None
    show ?thesis
    proof (cases "mapSporksActive reg (nSporkID msg)")
      case n: None
      then show ?thesis using that(4) v None
        by (simp add: ProcessSpork_def applyIfNewer_def h_def Let_def)
    next
      case (Some cur)
      show ?thesis
      proof (cases "sint (nTimeSigned cur) < sint (nTimeSigned msg)")
        case True
        then show ?thesis using that(4) v None Some
          by (simp add: ProcessSpork_def applyIfNewer_def h_def Let_def)
      next
        case False
        then show ?thesis using that(3) [of cur] v None Some
          by (simp add: ProcessSpork_def applyIfNewer_def h_def Let_def)
      qed
    qed
  qed
qed

lemma verifiedOnly_empty: "verifiedOnly V emptyRegistry"
  by (simp add: verifiedOnly_def emptyRegistry_def)

lemma ProcessSpork_verifiedOnly:
  assumes "verifiedOnly V reg"
  shows "verifiedOnly V (fst (ProcessSpork V H reg msg))"
  by (rule ProcessSpork_cases [where V = V and H = H and reg = reg and msg = msg])
     (insert assms, auto simp: verifiedOnly_def)

lemma ProcessSpork_effects_verified:
  assumes "e \<in> set (snd (ProcessSpork V H reg msg))"
  shows "e \<in> {Persist msg, Relay msg, TriggerHooks msg} \<and> V msg"
  by (rule ProcessSpork_cases [where V = V and H = H and reg = reg and msg = msg])
     (insert assms, auto)

lemma ProcessSporks_verifiedOnly:
  "verifiedOnly V reg \<Longrightarrow> verifiedOnly V (fst (ProcessSporks V H reg msgs))"
proof (induction msgs arbitrary: reg)
  case Nil
  then show ?case by simp
next
  case (Cons m msgs)
  from Cons.IH [OF ProcessSpork_verifiedOnly [OF Cons.prems, of H m]]
  show ?case by (simp add: split_beta Let_def)
qed

lemma ProcessSporks_relay_verified:
  "Relay m \<in> set (snd (ProcessSporks V H reg msgs)) \<Longrightarrow> V m"
proof (induction msgs arbitrary: reg)
  case Nil
  then show ?case by simp
next
  case (Cons x msgs)
  from Cons.prems consider
    "Relay m \<in> set (snd (ProcessSpork V H reg x))"
    | "Relay m \<in> set (snd (ProcessSporks V H (fst (ProcessSpork V H reg x)) msgs))"
    by (auto simp: split_beta Let_def)
  then show ?case
  proof cases
    case 1
    from ProcessSpork_effects_verified [OF 1] show ?thesis by auto
  next
    case 2
    then show ?thesis by (rule Cons.IH)
  qed
qed

text \<open>C1: a message whose signature does not verify leaves the registry as it is and
  causes no effect; and whatever messages a node has processed, starting from a registry
  that holds verified messages only (the empty registry is one), such a message is in
  neither \<open>mapSporks\<close> nor \<open>mapSporksActive\<close> and has not been relayed.\<close>

theorem invalid_signature_never_stored_or_relayed:
  assumes "\<not> CheckSignature msg"
  shows "ProcessSpork CheckSignature H reg msg = (reg, [])
    \<and> (\<forall>reg0 msgs reg' out.
          verifiedOnly CheckSignature reg0
          \<and> ProcessSporks CheckSignature H reg0 msgs = (reg', out) \<longrightarrow>
          msg \<notin> ran (mapSporks reg') \<and> msg \<notin> ran (mapSporksActive reg') \<and> Relay msg \<notin> set out)
    \<and> verifiedOnly CheckSignature emptyRegistry"
proof (intro conjI allI impI)
  show "ProcessSpork CheckSignature H reg msg = (reg, [])"
    using assms by (simp add: ProcessSpork_def)
next
  fix reg0 msgs reg' out
  assume a: "verifiedOnly CheckSignature reg0
          \<and> ProcessSporks CheckSignature H reg0 msgs = (reg', out)"
  then have run: "ProcessSporks CheckSignature H reg0 msgs = (reg', out)" by simp
  from a have v0: "verifiedOnly CheckSignature reg0" by simp
  have "verifiedOnly CheckSignature (fst (ProcessSporks CheckSignature H reg0 msgs))"
    by (rule ProcessSporks_verifiedOnly [OF v0])
  with run have ok: "verifiedOnly CheckSignature reg'" by simp
  show "msg \<notin> ran (mapSporks reg')"
    using ok assms by (auto simp: verifiedOnly_def ran_def)
  show "msg \<notin> ran (mapSporksActive reg')"
    using ok assms by (auto simp: verifiedOnly_def ran_def)
  show "Relay msg \<notin> set out"
    using ProcessSporks_relay_verified [of msg CheckSignature H reg0 msgs] run assms
    by auto
next
  show "verifiedOnly CheckSignature emptyRegistry" by (rule verifiedOnly_empty)
qed

theorem invalid_signature_never_stored_or_relayed_witness:
  "\<not> demoCheckSignature forgedSpork
   \<and> ProcessSpork demoCheckSignature demoWriter regWith200 forgedSpork = (regWith200, [])
   \<and> forgedSpork \<notin> ran (mapSporks (fst (ProcessSporks demoCheckSignature demoWriter emptyRegistry
         [sporkAt 100, forgedSpork, sporkAt 200])))
   \<and> forgedSpork \<notin> ran (mapSporksActive (fst (ProcessSporks demoCheckSignature demoWriter emptyRegistry
         [sporkAt 100, forgedSpork, sporkAt 200])))
   \<and> Relay forgedSpork \<notin> set (snd (ProcessSporks demoCheckSignature demoWriter emptyRegistry
         [sporkAt 100, forgedSpork, sporkAt 200]))"
proof -
  let ?run = "ProcessSporks demoCheckSignature demoWriter emptyRegistry
         [sporkAt 100, forgedSpork, sporkAt 200]"
  have bad: "\<not> demoCheckSignature forgedSpork"
    by (simp add: demoCheckSignature_def forgedSpork_def)
  have r: "?run = (fst ?run, snd ?run)" by simp
  note inst = invalid_signature_never_stored_or_relayed
         [of demoCheckSignature forgedSpork demoWriter regWith200]
  from inst bad have step: "ProcessSpork demoCheckSignature demoWriter regWith200 forgedSpork
      = (regWith200, [])"
    and empty: "verifiedOnly demoCheckSignature emptyRegistry"
    and inv: "\<forall>reg0 msgs reg' out.
          verifiedOnly demoCheckSignature reg0
          \<and> ProcessSporks demoCheckSignature demoWriter reg0 msgs = (reg', out) \<longrightarrow>
          forgedSpork \<notin> ran (mapSporks reg') \<and> forgedSpork \<notin> ran (mapSporksActive reg')
          \<and> Relay forgedSpork \<notin> set out"
    by blast+
  from inv empty r have "forgedSpork \<notin> ran (mapSporks (fst ?run))
      \<and> forgedSpork \<notin> ran (mapSporksActive (fst ?run)) \<and> Relay forgedSpork \<notin> set (snd ?run)"
    by blast
  with bad step show ?thesis by simp
qed

lemma ProcessSpork_active_mono:
  assumes "mapSporksActive reg i = Some a"
  shows "\<exists>b. mapSporksActive (fst (ProcessSpork V H reg msg)) i = Some b
           \<and> timeSigned a \<le> timeSigned b"
  by (rule ProcessSpork_cases [where V = V and H = H and reg = reg and msg = msg])
     (insert assms, auto simp: timeSigned_def)

lemma ProcessSporks_active_mono:
  "mapSporksActive reg i = Some a \<Longrightarrow>
     \<exists>b. mapSporksActive (fst (ProcessSporks V H reg msgs)) i = Some b
           \<and> timeSigned a \<le> timeSigned b"
proof (induction msgs arbitrary: reg a)
  case Nil
  then show ?case by simp
next
  case (Cons m msgs)
  from ProcessSpork_active_mono [OF Cons.prems, of V H m]
  obtain b where b: "mapSporksActive (fst (ProcessSpork V H reg m)) i = Some b"
    and ab: "timeSigned a \<le> timeSigned b" by blast
  from Cons.IH [OF b] obtain c where
    "mapSporksActive (fst (ProcessSporks V H (fst (ProcessSpork V H reg m)) msgs)) i = Some c"
    and "timeSigned b \<le> timeSigned c" by blast
  with ab show ?case by (auto simp: split_beta Let_def)
qed

lemma ProcessSpork_stale:
  assumes "V msg" and "mapSporksActive reg (nSporkID msg) = Some cur"
    and "timeSigned msg \<le> timeSigned cur"
  shows "mapSporksActive (fst (ProcessSpork V H reg msg)) = mapSporksActive reg
     \<and> mapSporks (fst (ProcessSpork V H reg msg)) =
         (if mapSporks reg (GetHash H msg) = None then (mapSporks reg)(GetHash H msg \<mapsto> msg)
          else mapSporks reg)
     \<and> snd (ProcessSpork V H reg msg) = []"
  by (rule ProcessSpork_cases [where V = V and H = H and reg = reg and msg = msg])
     (insert assms, auto simp: timeSigned_def)

text \<open>C2: for every spork id, the \<open>timeSigned\<close> of the active entry never decreases,
  whatever messages are processed; and a validly signed message that is not strictly
  newer than the active entry of its id leaves \<open>mapSporksActive\<close> as it is, while its
  hash is in \<open>mapSporks\<close> afterwards (the message itself is inserted unless the hash was
  there already).\<close>

theorem active_timeSigned_monotone_stale_only_seen:
  "(\<forall>i a. mapSporksActive reg i = Some a \<longrightarrow>
       (\<exists>b. mapSporksActive (fst (ProcessSporks CheckSignature H reg msgs)) i = Some b
            \<and> timeSigned a \<le> timeSigned b))
   \<and> (CheckSignature msg \<and> mapSporksActive reg (nSporkID msg) = Some cur
        \<and> timeSigned msg \<le> timeSigned cur \<longrightarrow>
        mapSporksActive (fst (ProcessSpork CheckSignature H reg msg)) = mapSporksActive reg
        \<and> mapSporks (fst (ProcessSpork CheckSignature H reg msg)) =
            (if mapSporks reg (GetHash H msg) = None
             then (mapSporks reg)(GetHash H msg \<mapsto> msg) else mapSporks reg)
        \<and> GetHash H msg \<in> dom (mapSporks (fst (ProcessSpork CheckSignature H reg msg))))"
proof (intro conjI allI impI)
  fix i a
  assume "mapSporksActive reg i = Some a"
  then show "\<exists>b. mapSporksActive (fst (ProcessSporks CheckSignature H reg msgs)) i = Some b
            \<and> timeSigned a \<le> timeSigned b"
    by (rule ProcessSporks_active_mono)
next
  assume a: "CheckSignature msg \<and> mapSporksActive reg (nSporkID msg) = Some cur
        \<and> timeSigned msg \<le> timeSigned cur"
  then have s: "mapSporksActive (fst (ProcessSpork CheckSignature H reg msg)) = mapSporksActive reg
     \<and> mapSporks (fst (ProcessSpork CheckSignature H reg msg)) =
         (if mapSporks reg (GetHash H msg) = None then (mapSporks reg)(GetHash H msg \<mapsto> msg)
          else mapSporks reg)
     \<and> snd (ProcessSpork CheckSignature H reg msg) = []"
    using ProcessSpork_stale [of CheckSignature msg reg cur H] by blast
  from s show "mapSporksActive (fst (ProcessSpork CheckSignature H reg msg)) = mapSporksActive reg"
    by blast
  from s show "mapSporks (fst (ProcessSpork CheckSignature H reg msg)) =
            (if mapSporks reg (GetHash H msg) = None
             then (mapSporks reg)(GetHash H msg \<mapsto> msg) else mapSporks reg)"
    by blast
  then show "GetHash H msg \<in> dom (mapSporks (fst (ProcessSpork CheckSignature H reg msg)))"
    by (auto split: if_splits)
qed

theorem active_timeSigned_monotone_stale_only_seen_witness:
  "demoCheckSignature (sporkAt 100)
   \<and> mapSporksActive regWith200 (nSporkID (sporkAt 100)) = Some (sporkAt 200)
   \<and> timeSigned (sporkAt 100) \<le> timeSigned (sporkAt 200)
   \<and> mapSporksActive (fst (ProcessSpork demoCheckSignature demoWriter regWith200 (sporkAt 100)))
       = mapSporksActive regWith200
   \<and> GetHash demoWriter (sporkAt 100)
       \<in> dom (mapSporks (fst (ProcessSpork demoCheckSignature demoWriter regWith200 (sporkAt 100))))
   \<and> (\<exists>b. mapSporksActive (fst (ProcessSporks demoCheckSignature demoWriter regWith200
                [sporkAt 100, sporkAt 300])) 10001 = Some b
          \<and> timeSigned (sporkAt 200) \<le> timeSigned b)"
proof -
  have p: "demoCheckSignature (sporkAt 100)
     \<and> mapSporksActive regWith200 (nSporkID (sporkAt 100)) = Some (sporkAt 200)
     \<and> timeSigned (sporkAt 100) \<le> timeSigned (sporkAt 200)"
    by (simp add: demoCheckSignature_def sporkAt_def regWith200_def timeSigned_def)
  have q: "mapSporksActive regWith200 10001 = Some (sporkAt 200)"
    by (simp add: regWith200_def)
  from active_timeSigned_monotone_stale_only_seen
         [of regWith200 demoCheckSignature demoWriter "[sporkAt 100, sporkAt 300]"
             "sporkAt 100" "sporkAt 200"] p q
  show ?thesis by blast
qed

lemma relayed_append: "relayed (es @ fs) = relayed es @ relayed fs"
  by (induction es rule: relayed.induct) simp_all

lemma maxTime_insert_above:
  assumes "finite S" and "\<forall>c \<in> C. c < t" and "finite C"
  shows "maxTime (C \<union> insert t S) = maxTime (insert t S)"
proof -
  have "Max (C \<union> insert t S) = Max (insert t S)"
  proof (rule Max_eqI)
    show "finite (C \<union> insert t S)" using assms by simp
    show "Max (insert t S) \<in> C \<union> insert t S"
      using Max_in [of "insert t S"] assms(1) by blast
    fix y assume "y \<in> C \<union> insert t S"
    then consider "y \<in> C" | "y \<in> insert t S" by blast
    then show "y \<le> Max (insert t S)"
    proof cases
      case 1
      then have "y < t" using assms(2) by blast
      moreover have "t \<le> Max (insert t S)" using assms(1) by simp
      ultimately show ?thesis by simp
    next
      case 2
      then show ?thesis using assms(1) by simp
    qed
  qed
  then show ?thesis by (simp add: maxTime_def)
qed

lemma ProcessSporks_activeTime_relayed:
  assumes "\<forall>m \<in> set msgs. nSporkID m = i"
  shows "activeTime (fst (ProcessSporks V H reg msgs)) i =
           maxTime (set_option (activeTime reg i)
                    \<union> timeSigned ` set (relayed (snd (ProcessSporks V H reg msgs))))"
  using assms
proof (induction msgs arbitrary: reg)
  case Nil
  show ?case by (cases "activeTime reg i") (simp_all add: maxTime_def)
next
  case (Cons m msgs)
  let ?reg1 = "fst (ProcessSpork V H reg m)"
  let ?out1 = "snd (ProcessSpork V H reg m)"
  let ?R2 = "timeSigned ` set (relayed (snd (ProcessSporks V H ?reg1 msgs)))"
  have id: "nSporkID m = i" using Cons.prems by simp
  have IH: "activeTime (fst (ProcessSporks V H ?reg1 msgs)) i =
              maxTime (set_option (activeTime ?reg1 i) \<union> ?R2)"
    using Cons.IH [of ?reg1] Cons.prems by simp
  have unfold: "fst (ProcessSporks V H reg (m # msgs)) = fst (ProcessSporks V H ?reg1 msgs)"
    "relayed (snd (ProcessSporks V H reg (m # msgs))) =
       relayed ?out1 @ relayed (snd (ProcessSporks V H ?reg1 msgs))"
    by (simp_all add: split_beta Let_def relayed_append)
  have "maxTime (set_option (activeTime ?reg1 i) \<union> ?R2) =
        maxTime (set_option (activeTime reg i) \<union> (timeSigned ` set (relayed ?out1) \<union> ?R2))"
  proof (rule ProcessSpork_cases [where V = V and H = H and reg = reg and msg = m])
    assume "ProcessSpork V H reg m = (reg, [])"
    then show ?thesis by simp
  next
    assume "ProcessSpork V H reg m = (reg, [])"
    then show ?thesis by simp
  next
    fix cur
    assume "ProcessSpork V H reg m =
              (reg\<lparr>mapSporks := (mapSporks reg)(GetHash H m \<mapsto> m)\<rparr>, [])"
    then show ?thesis by (simp add: activeTime_def)
  next
    assume newer: "\<forall>cur. mapSporksActive reg (nSporkID m) = Some cur
          \<longrightarrow> sint (nTimeSigned cur) < sint (nTimeSigned m)"
      and res: "ProcessSpork V H reg m =
         (reg\<lparr>mapSporks := (mapSporks reg)(GetHash H m \<mapsto> m),
              mapSporksActive := (mapSporksActive reg)(nSporkID m \<mapsto> m)\<rparr>,
          [Persist m, Relay m, TriggerHooks m])"
    have below: "\<forall>c \<in> set_option (activeTime reg i). c < timeSigned m"
      using newer id by (auto simp: activeTime_def timeSigned_def)
    have "maxTime (set_option (activeTime reg i) \<union> insert (timeSigned m) ?R2) =
          maxTime (insert (timeSigned m) ?R2)"
      by (rule maxTime_insert_above) (use below in simp_all)
    then show ?thesis using res id by (simp add: activeTime_def)
  qed
  then have "activeTime (fst (ProcessSporks V H ?reg1 msgs)) i =
        maxTime (set_option (activeTime reg i) \<union> (timeSigned ` set (relayed ?out1) \<union> ?R2))"
    using IH by (simp only:)
  then show ?case
    unfolding unfold by (simp only: set_append image_Un)
qed

lemma maxTime_insert:
  "finite S \<Longrightarrow> maxTime (insert t S) = Some (case maxTime S of None \<Rightarrow> t | Some c \<Rightarrow> max t c)"
  by (simp add: maxTime_def)

lemma ProcessSporks_activeTime_all:
  assumes "\<forall>m \<in> set msgs. V m \<and> nSporkID m = i"
    and "collisionFree H (prev @ msgs)"
    and "dom (mapSporks reg) \<subseteq> GetHash H ` set prev"
    and "activeTime reg i = maxTime (timeSigned ` set prev)"
  shows "activeTime (fst (ProcessSporks V H reg msgs)) i = maxTime (timeSigned ` set (prev @ msgs))"
  using assms
proof (induction msgs arbitrary: reg prev)
  case Nil
  then show ?case by simp
next
  case (Cons m msgs)
  let ?reg1 = "fst (ProcessSpork V H reg m)"
  have id: "nSporkID m = i" and v: "V m" using Cons.prems(1) by simp_all
  have cf: "collisionFree H ((prev @ [m]) @ msgs)"
    using Cons.prems(2) by simp
  have step: "dom (mapSporks ?reg1) \<subseteq> GetHash H ` set (prev @ [m])
      \<and> activeTime ?reg1 i = maxTime (timeSigned ` set (prev @ [m]))"
  proof (rule ProcessSpork_cases [where V = V and H = H and reg = reg and msg = m])
    assume "\<not> V m"
    with v show ?thesis by simp
  next
    assume seen: "mapSporks reg (GetHash H m) \<noteq> None"
      and res: "ProcessSpork V H reg m = (reg, [])"
    from seen Cons.prems(3) obtain x where x: "x \<in> set prev" "GetHash H x = GetHash H m"
      by (auto simp: dom_def image_iff subset_iff)
    with Cons.prems(2) have "nTimeSigned x = nTimeSigned m"
      by (simp add: collisionFree_def)
    then have "timeSigned m = timeSigned x" by (simp add: timeSigned_def)
    moreover from x(1) have "timeSigned x \<in> timeSigned ` set prev" by (rule imageI)
    ultimately have "timeSigned m \<in> timeSigned ` set prev" by simp
    then have "insert (timeSigned m) (timeSigned ` set prev) = timeSigned ` set prev"
      by blast
    with res Cons.prems(3,4) show ?thesis by auto
  next
    fix cur
    assume act: "mapSporksActive reg (nSporkID m) = Some cur"
      and notnewer: "\<not> sint (nTimeSigned cur) < sint (nTimeSigned m)"
      and res: "ProcessSpork V H reg m =
              (reg\<lparr>mapSporks := (mapSporks reg)(GetHash H m \<mapsto> m)\<rparr>, [])"
    from act id Cons.prems(4) have "maxTime (timeSigned ` set prev) = Some (timeSigned cur)"
      by (simp add: activeTime_def)
    with notnewer have "maxTime (insert (timeSigned m) (timeSigned ` set prev))
        = Some (timeSigned cur)"
      by (simp add: maxTime_insert timeSigned_def)
    with res act id Cons.prems(3) show ?thesis
      by (auto simp: activeTime_def)
  next
    assume newer: "\<forall>cur. mapSporksActive reg (nSporkID m) = Some cur
          \<longrightarrow> sint (nTimeSigned cur) < sint (nTimeSigned m)"
      and res: "ProcessSpork V H reg m =
         (reg\<lparr>mapSporks := (mapSporks reg)(GetHash H m \<mapsto> m),
              mapSporksActive := (mapSporksActive reg)(nSporkID m \<mapsto> m)\<rparr>,
          [Persist m, Relay m, TriggerHooks m])"
    have "maxTime (insert (timeSigned m) (timeSigned ` set prev)) = Some (timeSigned m)"
    proof (cases "mapSporksActive reg i")
      case None
      with Cons.prems(4) have "maxTime (timeSigned ` set prev) = None"
        by (simp add: activeTime_def)
      then show ?thesis by (simp add: maxTime_insert)
    next
      case (Some cur)
      with Cons.prems(4) have "maxTime (timeSigned ` set prev) = Some (timeSigned cur)"
        by (simp add: activeTime_def)
      moreover have "timeSigned cur < timeSigned m"
        using newer Some id by (simp add: timeSigned_def)
      ultimately show ?thesis by (simp add: maxTime_insert)
    qed
    with res id Cons.prems(3) show ?thesis
      by (auto simp: activeTime_def)
  qed
  from Cons.IH [where reg = ?reg1 and prev = "prev @ [m]"] Cons.prems(1) cf step
  have "activeTime (fst (ProcessSporks V H ?reg1 msgs)) i
          = maxTime (timeSigned ` set ((prev @ [m]) @ msgs))"
    by simp
  then show ?case by (simp add: split_beta Let_def)
qed

lemma first_message_relayed:
  assumes "V m"
  shows "relayed (snd (ProcessSporks V H emptyRegistry (m # msgs))) \<noteq> []"
proof -
  have "ProcessSpork V H emptyRegistry m =
          (emptyRegistry\<lparr>mapSporks := (mapSporks emptyRegistry)(GetHash H m \<mapsto> m),
              mapSporksActive := (mapSporksActive emptyRegistry)(nSporkID m \<mapsto> m)\<rparr>,
          [Persist m, Relay m, TriggerHooks m])"
    using assms by (simp add: ProcessSpork_def applyIfNewer_def emptyRegistry_def Let_def)
  then show ?thesis by (simp add: split_beta Let_def relayed_append)
qed

text \<open>C3: after a non-empty sequence of validly signed messages for one id, processed
  from the empty registry, the active entry's \<open>timeSigned\<close> is the maximum over the
  messages that were accepted (those relayed). When the digest tells the messages of the
  sequence apart, it is the maximum over the whole sequence, and every reordering of the
  sequence ends with the same active \<open>timeSigned\<close>.\<close>

theorem active_timeSigned_is_maximum:
  assumes "msgs \<noteq> []" and "\<forall>m \<in> set msgs. CheckSignature m \<and> nSporkID m = i"
    and "ProcessSporks CheckSignature H emptyRegistry msgs = (reg, out)"
  shows "relayed out \<noteq> []
    \<and> activeTime reg i = Some (Max (timeSigned ` set (relayed out)))
    \<and> (collisionFree H msgs \<longrightarrow>
         activeTime reg i = Some (Max (timeSigned ` set msgs))
         \<and> (\<forall>msgs'. mset msgs' = mset msgs \<longrightarrow>
               activeTime (fst (ProcessSporks CheckSignature H emptyRegistry msgs')) i
                 = activeTime reg i))"
proof (intro conjI impI allI)
  from assms(1) obtain m ms where ms: "msgs = m # ms" by (cases msgs) auto
  with assms(2) have "CheckSignature m" by simp
  from first_message_relayed [of CheckSignature m H ms] this assms(3) ms
  show nonempty: "relayed out \<noteq> []" by simp
  have "activeTime (fst (ProcessSporks CheckSignature H emptyRegistry msgs)) i =
           maxTime (set_option (activeTime emptyRegistry i)
              \<union> timeSigned ` set (relayed (snd (ProcessSporks CheckSignature H emptyRegistry msgs))))"
    by (rule ProcessSporks_activeTime_relayed) (use assms(2) in simp)
  with assms(3) nonempty
  show "activeTime reg i = Some (Max (timeSigned ` set (relayed out)))"
    by (simp add: activeTime_def emptyRegistry_def maxTime_def)
next
  assume cf: "collisionFree H msgs"
  have all: "activeTime (fst (ProcessSporks CheckSignature H emptyRegistry xs)) i
       = maxTime (timeSigned ` set xs)" if "set xs = set msgs" for xs
  proof -
    have "activeTime (fst (ProcessSporks CheckSignature H emptyRegistry xs)) i
       = maxTime (timeSigned ` set ([] @ xs))"
    proof (rule ProcessSporks_activeTime_all)
      show "\<forall>m \<in> set xs. CheckSignature m \<and> nSporkID m = i"
        unfolding that by (rule assms(2))
      show "collisionFree H ([] @ xs)"
        using cf unfolding collisionFree_def append_Nil that .
      show "dom (mapSporks emptyRegistry) \<subseteq> GetHash H ` set []"
        by (simp add: emptyRegistry_def)
      show "activeTime emptyRegistry i = maxTime (timeSigned ` set [])"
        by (simp add: activeTime_def emptyRegistry_def maxTime_def)
    qed
    then show ?thesis by simp
  qed
  from all [of msgs] assms(1,3)
  show here: "activeTime reg i = Some (Max (timeSigned ` set msgs))"
    by (simp add: maxTime_def)
  fix msgs'
  assume "mset msgs' = mset msgs"
  then have "set msgs' = set msgs" by (rule mset_eq_setD)
  from all [OF this] this all [of msgs] assms(3)
  show "activeTime (fst (ProcessSporks CheckSignature H emptyRegistry msgs')) i = activeTime reg i"
    by simp
qed

lemma le_bytes_4: "le_bytes 4 w = [ucast w, ucast (drop_bit 8 w), ucast (drop_bit 16 w), ucast (drop_bit 24 w)]"
  by (simp add: le_bytes_def upt_conv_Cons)

lemma le_bytes_8: "le_bytes 8 w = [ucast w, ucast (drop_bit 8 w), ucast (drop_bit 16 w), ucast (drop_bit 24 w),
   ucast (drop_bit 32 w), ucast (drop_bit 40 w), ucast (drop_bit 48 w), ucast (drop_bit 56 w)]"
  by (simp add: le_bytes_def upt_conv_Cons)

lemmas demo_hash_simps = GetHash_def demoWriter_def sporkAt_def
  le_bytes_4 le_bytes_8 drop_bit_eq_div

lemma collisionFree_demoMsgs: "collisionFree demoWriter demoMsgs"
  by (simp add: collisionFree_def demoMsgs_def demo_hash_simps)

theorem active_timeSigned_is_maximum_witness:
  "collisionFree demoWriter demoMsgs
   \<and> activeTime (fst (ProcessSporks demoCheckSignature demoWriter emptyRegistry demoMsgs)) 10001
       = Some 300
   \<and> activeTime (fst (ProcessSporks demoCheckSignature demoWriter emptyRegistry (rev demoMsgs))) 10001
       = Some 300"
proof -
  let ?run = "ProcessSporks demoCheckSignature demoWriter emptyRegistry demoMsgs"
  have ne: "demoMsgs \<noteq> []" by (simp add: demoMsgs_def)
  have v: "\<forall>m \<in> set demoMsgs. demoCheckSignature m \<and> nSporkID m = 10001"
    by (simp add: demoMsgs_def demoCheckSignature_def sporkAt_def)
  have r: "?run = (fst ?run, snd ?run)" by simp
  note cf = collisionFree_demoMsgs
  from active_timeSigned_is_maximum [OF ne v r] cf
  have a: "activeTime (fst ?run) 10001 = Some (Max (timeSigned ` set demoMsgs))"
    and b: "\<forall>msgs'. mset msgs' = mset demoMsgs \<longrightarrow>
       activeTime (fst (ProcessSporks demoCheckSignature demoWriter emptyRegistry msgs')) 10001
         = activeTime (fst ?run) 10001"
    by blast+
  have m: "Max (timeSigned ` set demoMsgs) = 300"
    by (simp add: demoMsgs_def timeSigned_def sporkAt_def)
  have "mset (rev demoMsgs) = mset demoMsgs" by simp
  with b have "activeTime (fst (ProcessSporks demoCheckSignature demoWriter emptyRegistry (rev demoMsgs))) 10001
         = activeTime (fst ?run) 10001" by blast
  with a m cf show ?thesis by simp
qed

end
